theory Spec2Isabelle
  imports Main "HOL-Library.Multiset" "HOL-Library.Char_ord" "HOL-Library.List_Lexorder"
    "HOL-Library.Option_ord"
begin

section \<open>The task table\<close>

text \<open>
  The program under study is \<^verbatim>\<open>app.py\<close>: a to-do list kept in one SQLite table,
  a priority advisor that asks a remote zero-shot classifier, and a Streamlit script that
  renders the table and dispatches the user's actions.

  The table is declared as
  \<^verbatim>\<open>tasks(id INTEGER PRIMARY KEY AUTOINCREMENT, title TEXT NOT NULL, notes TEXT,
        priority TEXT DEFAULT 'Medium', done INTEGER DEFAULT 0, created_at TEXT)\<close>.
  A row is a record with one field per column; the fields carry the names the script's
  render loop gives the columns (\<open>task_id\<close>, \<open>t_title\<close>, \<open>t_notes\<close>, \<open>t_priority\<close>,
  \<open>t_done\<close>). Text is a byte string
  (UTF-8), which is what SQLite's default collation compares. \<open>notes\<close> and \<open>priority\<close>
  are nullable: \<open>None\<close> is SQL's NULL. The columns \<open>id\<close> and \<open>done\<close> hold integers; an int
  that a caller passes to a statement is checked against SQLite's 64 bits when it is
  bound, as \<open>sqlite3\<close> does. The ids that AUTOINCREMENT hands out are not bounded: the
  exhaustion of the 64-bit rowids on INSERT is outside the model.
\<close>

record task =
  task_id :: int
  t_title :: string
  t_notes :: "string option"
  t_priority :: "string option"
  t_done :: int
  created_at :: string

text \<open>
  The database file either has no \<open>tasks\<close> table yet (\<open>None\<close>) or holds the table: its
  rows in rowid order and, because of AUTOINCREMENT, the largest rowid the table has ever
  held (SQLite keeps it in \<open>sqlite_sequence\<close>).
\<close>

record tasks_table =
  rows :: "task list"
  seq :: int

type_synonym db = "tasks_table option"

datatype py_exception =
    OperationalError
  | InterfaceError
  | OverflowError
  | ValueError
  | TypeError
  | KeyError
  | IndexError
  | ConnectionError
  | Timeout
  | JSONDecodeError

text \<open>
  \<open>sqlite3\<close> binds a Python int as a signed 64-bit integer; an int outside that range
  raises OverflowError when the statement's parameters are bound, after the statement has
  been prepared (which is where a missing table is detected).
\<close>

definition int64 :: "int \<Rightarrow> bool" where
  "int64 i = (- (2 ^ 63) \<le> i \<and> i < 2 ^ 63)"

text \<open>The three options of both priority select boxes, in the order the script lists them.\<close>

definition labels :: "string list" where
  "labels = [''Low'', ''Medium'', ''High'']"

subsection \<open>Statements on the table\<close>

text \<open>\<^verbatim>\<open>CREATE TABLE IF NOT EXISTS tasks (...)\<close>\<close>

definition init_db :: "db \<Rightarrow> py_exception + db" where
  "init_db d = (case d of
      None \<Rightarrow> Inr (Some \<lparr>rows = [], seq = 0\<rparr>)
    | Some t \<Rightarrow> Inr (Some t))"

text \<open>
  AUTOINCREMENT: the new rowid is one more than the largest rowid that has ever been in
  the table.
\<close>

definition next_id :: "tasks_table \<Rightarrow> int" where
  "next_id t = fold max (map task_id (rows t)) (seq t) + 1"

text \<open>
  \<^verbatim>\<open>INSERT INTO tasks (title, notes, priority, created_at) VALUES (?, ?, ?, ?)\<close>
  with \<open>datetime.utcnow().isoformat()\<close> as the last value: the clock's reading is the
  parameter \<open>now\<close>. \<open>done\<close> takes its default 0. Every statement on a file without the
  table raises \<open>sqlite3.OperationalError\<close> (no such table).
\<close>

definition add_task :: "db \<Rightarrow> string \<Rightarrow> string option \<Rightarrow> string option \<Rightarrow> string \<Rightarrow> py_exception + db" where
  "add_task d ttl nts pri now = (case d of
      None \<Rightarrow> Inl OperationalError
    | Some t \<Rightarrow>
        Inr (Some \<lparr>rows = rows t @
                      [\<lparr>task_id = next_id t, t_title = ttl, t_notes = nts, t_priority = pri,
                        t_done = 0, created_at = now\<rparr>],
                   seq = next_id t\<rparr>))"

text \<open>
  \<^verbatim>\<open>ORDER BY done, priority DESC, created_at DESC\<close> when completed tasks are shown,
  \<^verbatim>\<open>ORDER BY priority DESC, created_at DESC\<close> otherwise: \<open>precedes sd r s\<close> says
  that the sort keys allow row \<open>r\<close> before row \<open>s\<close>. Text compares bytewise, a proper
  prefix first; NULL is smaller than every text.
\<close>

definition precedes :: "bool \<Rightarrow> task \<Rightarrow> task \<Rightarrow> bool" where
  "precedes sd r s =
     (if sd \<and> t_done r \<noteq> t_done s then t_done r < t_done s
      else if t_priority r \<noteq> t_priority s then t_priority s < t_priority r
      else created_at s \<le> created_at r)"

text \<open>
  The rows are sorted by insertion, from the table's rowid order. Rows with equal keys
  stay in that order here; SQL leaves their order open, and no statement below depends
  on it.
\<close>

fun insort_by :: "('a \<Rightarrow> 'a \<Rightarrow> bool) \<Rightarrow> 'a \<Rightarrow> 'a list \<Rightarrow> 'a list" where
  "insort_by le x [] = [x]"
| "insort_by le x (y # ys) = (if le x y then x # y # ys else y # insort_by le x ys)"

definition order_by :: "('a \<Rightarrow> 'a \<Rightarrow> bool) \<Rightarrow> 'a list \<Rightarrow> 'a list" where
  "order_by le xs = foldr (insort_by le) xs []"

text \<open>\<^verbatim>\<open>SELECT id, title, notes, priority, done\<close>: the tuple the script unpacks.\<close>

type_synonym row = "int \<times> string \<times> string option \<times> string option \<times> int"

definition select_cols :: "task \<Rightarrow> row" where
  "select_cols r = (task_id r, t_title r, t_notes r, t_priority r, t_done r)"

definition row_id :: "row \<Rightarrow> int" where
  "row_id r = fst r"

definition row_title :: "row \<Rightarrow> string" where
  "row_title r = fst (snd r)"

definition row_notes :: "row \<Rightarrow> string option" where
  "row_notes r = fst (snd (snd r))"

definition row_priority :: "row \<Rightarrow> string option" where
  "row_priority r = fst (snd (snd (snd r)))"

definition row_done :: "row \<Rightarrow> int" where
  "row_done r = snd (snd (snd (snd r)))"

definition listed :: "bool \<Rightarrow> tasks_table \<Rightarrow> task list" where
  "listed show_done t =
     (if show_done then order_by (precedes True) (rows t)
      else order_by (precedes False) (filter (\<lambda>r. t_done r = 0) (rows t)))"

definition get_tasks :: "db \<Rightarrow> bool \<Rightarrow> py_exception + row list" where
  "get_tasks d show_done = (case d of
      None \<Rightarrow> Inl OperationalError
    | Some t \<Rightarrow> Inr (map select_cols (listed show_done t)))"

text \<open>\<^verbatim>\<open>UPDATE tasks SET done=? WHERE id=?\<close>\<close>

definition set_done :: "db \<Rightarrow> int \<Rightarrow> int \<Rightarrow> py_exception + db" where
  "set_done d tid dn = (case d of
      None \<Rightarrow> Inl OperationalError
    | Some t \<Rightarrow>
        if int64 dn \<and> int64 tid
        then Inr (Some (t\<lparr>rows :=
               map (\<lambda>r. if task_id r = tid then r\<lparr>t_done := dn\<rparr> else r) (rows t)\<rparr>))
        else Inl OverflowError)"

text \<open>\<^verbatim>\<open>DELETE FROM tasks WHERE id=?\<close>\<close>

definition delete_task :: "db \<Rightarrow> int \<Rightarrow> py_exception + db" where
  "delete_task d tid = (case d of
      None \<Rightarrow> Inl OperationalError
    | Some t \<Rightarrow>
        if int64 tid
        then Inr (Some (t\<lparr>rows := filter (\<lambda>r. task_id r \<noteq> tid) (rows t)\<rparr>))
        else Inl OverflowError)"

text \<open>\<^verbatim>\<open>UPDATE tasks SET priority=? WHERE id=?\<close>\<close>

definition update_priority :: "db \<Rightarrow> int \<Rightarrow> string option \<Rightarrow> py_exception + db" where
  "update_priority d tid pri = (case d of
      None \<Rightarrow> Inl OperationalError
    | Some t \<Rightarrow>
        if int64 tid
        then Inr (Some (t\<lparr>rows :=
               map (\<lambda>r. if task_id r = tid then r\<lparr>t_priority := pri\<rparr> else r) (rows t)\<rparr>))
        else Inl OverflowError)"

text \<open>
  The primary key: no two rows share an id, and no row's id exceeds the recorded
  sequence value.
\<close>

definition wf_table :: "tasks_table \<Rightarrow> bool" where
  "wf_table t = (distinct (map task_id (rows t)) \<and> list_all (\<lambda>r. task_id r \<le> seq t) (rows t))"

text \<open>
  Two rows are the same task when they agree on every column but \<open>priority\<close> and
  \<open>done\<close>, the two columns an UPDATE of the program can set.
\<close>

definition same_task :: "task \<Rightarrow> task \<Rightarrow> bool" where
  "same_task r r' =
     (task_id r' = task_id r \<and> t_title r' = t_title r \<and> t_notes r' = t_notes r
      \<and> created_at r' = created_at r)"

text \<open>
  A sequence of calls of the store's functions, run in order. The first exception ends
  the sequence; the result is the state the database is left in, and the exception if
  there was one. A call fits when its int parameters fit 64 bits.
\<close>

datatype store_op =
    AddTask string "string option" "string option" string
  | SetDone int int
  | UpdatePriority int "string option"
  | DeleteTask int

fun store_step :: "db \<Rightarrow> store_op \<Rightarrow> py_exception + db" where
  "store_step d (AddTask ttl nts pri now) = add_task d ttl nts pri now"
| "store_step d (SetDone tid dn) = set_done d tid dn"
| "store_step d (UpdatePriority tid pri) = update_priority d tid pri"
| "store_step d (DeleteTask tid) = delete_task d tid"

fun store_run :: "db \<Rightarrow> store_op list \<Rightarrow> db \<times> py_exception option" where
  "store_run d [] = (d, None)"
| "store_run d (x # xs) =
     (case store_step d x of Inl e \<Rightarrow> (d, Some e) | Inr d' \<Rightarrow> store_run d' xs)"

fun op_fits :: "store_op \<Rightarrow> bool" where
  "op_fits (AddTask ttl nts pri now) = True"
| "op_fits (SetDone tid dn) = (int64 dn \<and> int64 tid)"
| "op_fits (UpdatePriority tid pri) = int64 tid"
| "op_fits (DeleteTask tid) = int64 tid"

section \<open>The priority advisor\<close>

text \<open>
  What \<open>response.json()\<close> can return: a parsed JSON value. An object is the list of
  the items of the parsed dict (its keys are distinct); numbers are the integers, JSON
  reals are left out, since the program never computes with a number.
\<close>

datatype json =
    JNull
  | JBool bool
  | JNum int
  | JStr string
  | JArr "json list"
  | JObj "(string \<times> json) list"

text \<open>
  The request that \<open>requests.post\<close> sends. The module reads the bearer token from the
  environment once, at import: \<open>token\<close> is \<open>os.getenv("HUGGINGFACEHUB_API_TOKEN")\<close>, and
  the header is set only when the token is truthy (present and not empty).
\<close>

record request =
  url :: string
  authorization :: "string option"
  inputs :: string
  candidate_labels :: "string list"
  timeout :: nat

definition HF_MODEL :: string where
  "HF_MODEL = ''facebook/bart-large-mnli''"

definition HF_API_URL :: string where
  "HF_API_URL = ''https://api-inference.huggingface.co/models/'' @ HF_MODEL"

definition headers :: "string option \<Rightarrow> string option" where
  "headers token = (case token of
      None \<Rightarrow> None
    | Some tok \<Rightarrow> if tok = [] then None else Some (''Bearer '' @ tok))"

definition hf_request :: "string option \<Rightarrow> string \<Rightarrow> string \<Rightarrow> request" where
  "hf_request token ttl nts =
     \<lparr>url = HF_API_URL, authorization = headers token,
      inputs = ''Task: '' @ ttl @ ''. Notes: '' @ nts,
      candidate_labels = [''Low'', ''Medium'', ''High''], timeout = 10\<rparr>"

text \<open>
  The remote service is the environment: it answers a request with an exception raised
  by \<open>requests.post\<close> (connection error, timeout), with a body that \<open>response.json()\<close>
  rejects, or with a body that parses.
\<close>

datatype http_outcome =
    PostRaised py_exception
  | BodyNotJson
  | BodyJson json

subsection \<open>The Python operators the advisor applies to the parsed body\<close>

fun is_substring :: "string \<Rightarrow> string \<Rightarrow> bool" where
  "is_substring p [] = (p = [])"
| "is_substring p (c # cs) = (take (length p) (c # cs) = p \<or> is_substring p cs)"

text \<open>
  \<open>k in data\<close> for a str \<open>k\<close>: a key of a dict, an element of a list, a substring of a
  str; None, booleans and numbers are not iterable.
\<close>

fun py_in :: "string \<Rightarrow> json \<Rightarrow> py_exception + bool" where
  "py_in k (JObj kvs) = Inr (k \<in> set (map fst kvs))"
| "py_in k (JArr xs) = Inr (JStr k \<in> set xs)"
| "py_in k (JStr s) = Inr (is_substring k s)"
| "py_in k JNull = Inl TypeError"
| "py_in k (JBool b) = Inl TypeError"
| "py_in k (JNum n) = Inl TypeError"

text \<open>\<open>data[k]\<close> for a str \<open>k\<close>: only a dict can be indexed by a str.\<close>

fun py_getitem :: "json \<Rightarrow> string \<Rightarrow> py_exception + json" where
  "py_getitem (JObj kvs) k = (case map_of kvs k of None \<Rightarrow> Inl KeyError | Some v \<Rightarrow> Inr v)"
| "py_getitem (JArr xs) k = Inl TypeError"
| "py_getitem (JStr s) k = Inl TypeError"
| "py_getitem JNull k = Inl TypeError"
| "py_getitem (JBool b) k = Inl TypeError"
| "py_getitem (JNum n) k = Inl TypeError"

text \<open>
  The first character of a non-empty str: the bytes of its first code point, whose number
  the lead byte of the UTF-8 encoding gives.
\<close>

definition utf8_width :: "char \<Rightarrow> nat" where
  "utf8_width c =
     (if (of_char c :: nat) < 128 then 1
      else if (of_char c :: nat) < 224 then 2
      else if (of_char c :: nat) < 240 then 3
      else 4)"

text \<open>
  \<open>v[0]\<close>: the first element of a list, the first character of a str; a dict parsed from
  JSON has str keys only, so the key 0 is missing.
\<close>

fun py_getitem0 :: "json \<Rightarrow> py_exception + json" where
  "py_getitem0 (JArr []) = Inl IndexError"
| "py_getitem0 (JArr (x # xs)) = Inr x"
| "py_getitem0 (JStr []) = Inl IndexError"
| "py_getitem0 (JStr (c # cs)) = Inr (JStr (take (utf8_width c) (c # cs)))"
| "py_getitem0 (JObj kvs) = Inl KeyError"
| "py_getitem0 JNull = Inl TypeError"
| "py_getitem0 (JBool b) = Inl TypeError"
| "py_getitem0 (JNum n) = Inl TypeError"

subsection \<open>\<open>ai_suggest_priority\<close>\<close>

text \<open>
  The body of the \<open>try\<close> block: \<open>Inl e\<close> when it raises \<open>e\<close>, \<open>Inr (Some v)\<close> when it
  returns \<open>v\<close>, \<open>Inr None\<close> when it falls through its \<open>if\<close>.
\<close>

definition ai_try :: "http_outcome \<Rightarrow> py_exception + json option" where
  "ai_try resp = (case resp of
      PostRaised e \<Rightarrow> Inl e
    | BodyNotJson \<Rightarrow> Inl JSONDecodeError
    | BodyJson data \<Rightarrow>
        (case py_in ''labels'' data of
           Inl e \<Rightarrow> Inl e
         | Inr False \<Rightarrow> Inr None
         | Inr True \<Rightarrow>
             (case py_getitem data ''labels'' of
                Inl e \<Rightarrow> Inl e
              | Inr v \<Rightarrow>
                  (case py_getitem0 v of
                     Inl e \<Rightarrow> Inl e
                   | Inr x \<Rightarrow> Inr (Some x)))))"

text \<open>
  \<open>except Exception: pass\<close> swallows whatever the block raised, and the function ends
  with \<open>return "Medium"\<close>. The result is a sum so that "does not raise" is a statement
  about the function and not about its type.
\<close>

definition ai_suggest_priority ::
    "(request \<Rightarrow> http_outcome) \<Rightarrow> string option \<Rightarrow> string \<Rightarrow> string \<Rightarrow> py_exception + json" where
  "ai_suggest_priority post token ttl nts =
     (case ai_try (post (hf_request token ttl nts)) of
        Inl e \<Rightarrow> Inr (JStr ''Medium'')
      | Inr None \<Rightarrow> Inr (JStr ''Medium'')
      | Inr (Some v) \<Rightarrow> Inr v)"

text \<open>A parsed body has the field when it is an object with the key \<open>labels\<close>.\<close>

fun has_labels_field :: "json \<Rightarrow> bool" where
  "has_labels_field (JObj kvs) = (''labels'' \<in> fst ` set kvs)"
| "has_labels_field (JArr xs) = False"
| "has_labels_field (JStr s) = False"
| "has_labels_field JNull = False"
| "has_labels_field (JBool b) = False"
| "has_labels_field (JNum n) = False"

section \<open>The Streamlit script\<close>

text \<open>
  Streamlit runs the module from top to bottom on every interaction. The values its
  widgets return in one run are the run's input: the add-task form (title, priority select
  box, notes, the two buttons), the "show completed" check box, and per listed task (keyed
  by the task's id) its check box, its Delete button and the state of its priority select
  box. A select box returns one of its options.
\<close>

datatype choice = Low | Medium | High

fun label :: "choice \<Rightarrow> string" where
  "label Low = ''Low''"
| "label Medium = ''Medium''"
| "label High = ''High''"

record ui =
  title_input :: string
  priority_select :: choice
  notes_input :: string
  ai_button :: bool
  add_button :: bool
  show_done :: bool
  done_chk :: "int \<Rightarrow> bool"
  del_button :: "int \<Rightarrow> bool"
  pri_state :: "int \<Rightarrow> choice"

text \<open>
  How a run ends: at the bottom of the module, at \<open>st.experimental_rerun()\<close> (which stops
  the run and asks for the next one), or with an uncaught exception. The database keeps
  what was committed before.
\<close>

datatype outcome = Completed | Rerun | Raised py_exception

text \<open>
  The value bound to the \<open>priority\<close> parameter of the INSERT is whatever the script holds
  in \<open>priority_select\<close>. \<open>sqlite3\<close> binds None as NULL, a str as text, an int (a bool is
  one) as a 64-bit integer, which the column's TEXT affinity stores as its decimal text;
  a list or a dict cannot be bound.
\<close>

fun digits :: "nat \<Rightarrow> string" where
  "digits n = (if n < 10 then [char_of (48 + n)] else digits (n div 10) @ [char_of (48 + n mod 10)])"

declare digits.simps [simp del]

definition decimal :: "int \<Rightarrow> string" where
  "decimal i = (if i < 0 then CHR ''-'' # digits (nat (- i)) else digits (nat i))"

fun bind_text :: "json \<Rightarrow> py_exception + string option" where
  "bind_text JNull = Inr None"
| "bind_text (JStr s) = Inr (Some s)"
| "bind_text (JBool b) = Inr (Some (if b then ''1'' else ''0''))"
| "bind_text (JNum n) = (if int64 n then Inr (Some (decimal n)) else Inl OverflowError)"
| "bind_text (JArr xs) = Inl InterfaceError"
| "bind_text (JObj kvs) = Inl InterfaceError"

text \<open>\<open>xs.index(x)\<close>: the first position of \<open>x\<close>, ValueError when there is none.\<close>

fun py_index :: "'a list \<Rightarrow> 'a \<Rightarrow> py_exception + nat" where
  "py_index [] x = Inl ValueError"
| "py_index (y # ys) x =
     (if y = x then Inr 0
      else (case py_index ys x of Inl e \<Rightarrow> Inl e | Inr i \<Rightarrow> Inr (Suc i)))"

text \<open>A mutation made from the render loop is followed by \<open>st.experimental_rerun()\<close>.\<close>

fun then_rerun :: "db \<Rightarrow> py_exception + db \<Rightarrow> db \<times> outcome" where
  "then_rerun d (Inl e) = (d, Raised e)"
| "then_rerun d (Inr d') = (d', Rerun)"

text \<open>
  The loop \<open>for r in rows\<close>. Each row is unpacked, its select box is built with
  \<open>index=['Low','Medium','High'].index(t_priority)\<close>, and then the Delete button, the
  check box and the select box's state are looked at, in this order.
\<close>

fun render_rows :: "ui \<Rightarrow> db \<Rightarrow> row list \<Rightarrow> db \<times> outcome" where
  "render_rows u d [] = (d, Completed)"
| "render_rows u d (r # rs) =
     (case py_index (map Some labels) (row_priority r) of
        Inl e \<Rightarrow> (d, Raised e)
      | Inr i \<Rightarrow>
          if del_button u (row_id r) then then_rerun d (delete_task d (row_id r))
          else if done_chk u (row_id r) \<noteq> (row_done r \<noteq> 0)
            then then_rerun d (set_done d (row_id r) (if done_chk u (row_id r) then 1 else 0))
          else if Some (label (pri_state u (row_id r))) \<noteq> row_priority r
            then then_rerun d (update_priority d (row_id r) (Some (label (pri_state u (row_id r)))))
          else render_rows u d rs)"

text \<open>
  From \<open>show_done = st.checkbox(...)\<close> to the end of the loop: the listing is read and
  rendered.
\<close>

definition render :: "ui \<Rightarrow> db \<Rightarrow> db \<times> outcome" where
  "render u d = (case get_tasks d (show_done u) of
      Inl e \<Rightarrow> (d, Raised e)
    | Inr rws \<Rightarrow> render_rows u d rws)"

text \<open>
  The add-task form. \<open>priority_select\<close> is the select box's option unless the AI button
  fired with a title, in which case it is rebound to the advisor's suggestion; the Add
  button then inserts whatever \<open>priority_select\<close> holds.
\<close>

definition suggested_or_selected ::
    "(request \<Rightarrow> http_outcome) \<Rightarrow> string option \<Rightarrow> ui \<Rightarrow> py_exception + json" where
  "suggested_or_selected post token u =
     (if ai_button u \<and> title_input u \<noteq> []
      then ai_suggest_priority post token (title_input u) (notes_input u)
      else Inr (JStr (label (priority_select u))))"

definition add_form :: "string \<Rightarrow> ui \<Rightarrow> json \<Rightarrow> db \<Rightarrow> py_exception + db" where
  "add_form now u pri d =
     (if add_button u \<and> title_input u \<noteq> []
      then (case bind_text pri of
              Inl e \<Rightarrow> Inl e
            | Inr p \<Rightarrow> add_task d (title_input u) (Some (notes_input u)) p now)
      else Inr d)"

text \<open>One run of the module, from \<open>init_db()\<close> on.\<close>

definition app ::
    "(request \<Rightarrow> http_outcome) \<Rightarrow> string option \<Rightarrow> string \<Rightarrow> ui \<Rightarrow> db \<Rightarrow> db \<times> outcome" where
  "app post token now u d =
     (case init_db d of
        Inl e \<Rightarrow> (d, Raised e)
      | Inr d1 \<Rightarrow>
          (case suggested_or_selected post token u of
             Inl e \<Rightarrow> (d1, Raised e)
           | Inr pri \<Rightarrow>
               (case add_form now u pri d1 of
                  Inl e \<Rightarrow> (d1, Raised e)
                | Inr d2 \<Rightarrow> render u d2)))"

text \<open>The stored priorities are all among the three labels.\<close>

definition priorities_ok :: "db \<Rightarrow> bool" where
  "priorities_ok d = (case d of
      None \<Rightarrow> True
    | Some t \<Rightarrow> list_all (\<lambda>r. t_priority r \<in> Some ` set labels) (rows t))"

text \<open>A small table for concrete runs: one open task and one completed task.\<close>

definition demo_table :: tasks_table where
  "demo_table =
     \<lparr>rows = [\<lparr>task_id = 1, t_title = ''write report'', t_notes = Some ''draft first'',
                t_priority = Some ''High'', t_done = 0, created_at = ''2024-05-01T09:00:00''\<rparr>,
              \<lparr>task_id = 2, t_title = ''buy milk'', t_notes = Some [],
                t_priority = Some ''Low'', t_done = 1, created_at = ''2024-05-01T10:30:00.250000''\<rparr>],
      seq = 2\<rparr>"

text \<open>
  The widgets as a run that renders \<open>demo_table\<close> leaves them when the user touches
  nothing: no button fires, and every row's check box and select box show what is stored.
\<close>

definition demo_ui :: ui where
  "demo_ui =
     \<lparr>title_input = [], priority_select = Low, notes_input = [],
      ai_button = False, add_button = False, show_done = True,
      done_chk = (\<lambda>i. i = 2), del_button = (\<lambda>i. False),
      pri_state = (\<lambda>i. if i = 1 then High else Low)\<rparr>"

text \<open>
  A reply of the remote service whose top-ranked label is none of the candidates, and a
  run in which both buttons of the add-task form report a click, with a title typed in.
\<close>

definition rogue_reply :: "request \<Rightarrow> http_outcome" where
  "rogue_reply rq =
     BodyJson (JObj [(''sequence'', JStr (inputs rq)),
                     (''labels'', JArr [JStr ''Urgent'', JStr ''High'', JStr ''Low''])])"


section \<open>Sorting and listing\<close>

lemma mset_insort_by: "mset (insort_by le x xs) = add_mset x (mset xs)"
  by (induction xs) auto

lemma mset_order_by: "mset (order_by le xs) = mset xs"
  by (induction xs) (auto simp: order_by_def mset_insort_by)

lemma set_order_by: "set (order_by le xs) = set xs"
  using mset_order_by [of le xs] by (metis set_mset_mset)

lemma set_insort_by: "set (insort_by le x xs) = insert x (set xs)"
  using mset_insort_by [of le x xs] by (metis set_mset_mset set_mset_add_mset_insert)

lemma precedes_total: "precedes sd r s \<or> precedes sd s r"
  by (auto simp: precedes_def)

lemma precedes_trans: "precedes sd r s \<Longrightarrow> precedes sd s u \<Longrightarrow> precedes sd r u"
  by (auto simp: precedes_def split: if_splits)

lemma sorted_insort_by:
  assumes tot: "\<And>a b. le a b \<or> le b a" and tr: "\<And>a b c. le a b \<Longrightarrow> le b c \<Longrightarrow> le a c"
  shows "sorted_wrt le xs \<Longrightarrow> sorted_wrt le (insort_by le x xs)"
proof (induction xs)
  case Nil
  then show ?case by simp
next
  case (Cons y ys)
  show ?case
  proof (cases "le x y")
    case True
    with Cons.prems tr show ?thesis by auto
  next
    case False
    with tot have "le y x" by blast
    with Cons False show ?thesis by (auto simp: set_insort_by)
  qed
qed

lemma sorted_order_by:
  assumes tot: "\<And>a b. le a b \<or> le b a" and tr: "\<And>a b c. le a b \<Longrightarrow> le b c \<Longrightarrow> le a c"
  shows "sorted_wrt le (order_by le xs)"
proof (induction xs)
  case Nil
  then show ?case by (simp add: order_by_def)
next
  case (Cons x xs)
  have "order_by le (x # xs) = insort_by le x (order_by le xs)" by (simp add: order_by_def)
  with Cons sorted_insort_by [of le, OF tot tr] show ?case by simp
qed

lemma sorted_listed: "sorted_wrt (precedes sd) (listed sd t)"
  using sorted_order_by [of "precedes sd", OF precedes_total precedes_trans]
  by (cases sd) (simp_all add: listed_def)

lemma set_listed:
  "set (listed sd t) = (if sd then set (rows t) else {r \<in> set (rows t). t_done r = 0})"
  by (auto simp: listed_def set_order_by)

lemma mset_listed:
  "mset (listed sd t) =
     (if sd then mset (rows t) else filter_mset (\<lambda>r. t_done r = 0) (mset (rows t)))"
  by (simp add: listed_def mset_order_by)

lemma row_id_select [simp]: "row_id (select_cols r) = task_id r"
  by (simp add: row_id_def select_cols_def)

lemma row_done_select [simp]: "row_done (select_cols r) = t_done r"
  by (simp add: row_done_def select_cols_def)

lemma row_priority_select [simp]: "row_priority (select_cols r) = t_priority r"
  by (simp add: row_priority_def select_cols_def)

lemma get_tasks_Some: "get_tasks (Some t) sd = Inr (map select_cols (listed sd t))"
  by (simp add: get_tasks_def)

lemma listing_excludes:
  assumes "tid \<notin> task_id ` set (rows t)"
  shows "\<exists>l. get_tasks (Some t) sd = Inr l \<and> tid \<notin> row_id ` set l"
proof -
  from assms have "tid \<notin> row_id ` set (map select_cols (listed sd t))"
    by (auto simp: set_listed)
  with get_tasks_Some [of t sd] show ?thesis by blast
qed

text \<open>
  What the keys of the query mean for two rows, one allowed before the other.
\<close>

lemma precedes_keys:
  assumes "precedes sd r s"
  shows "(sd \<longrightarrow> t_done r \<le> t_done s)
     \<and> ((sd \<longrightarrow> t_done r = t_done s) \<longrightarrow> t_priority s \<le> t_priority r)
     \<and> ((sd \<longrightarrow> t_done r = t_done s) \<and> t_priority r = t_priority s
          \<longrightarrow> created_at s \<le> created_at r)"
  using assms by (auto simp: precedes_def split: if_splits)

text \<open>The three labels as text: High is below Low, and Low is below Medium.\<close>

lemma label_order: "Some ''High'' < Some ''Low'' \<and> Some ''Low'' < Some ''Medium''"
  by simp

lemma three_tasks_listing:
  "\<exists>d1 d2 d3 d4. init_db None = Inr d1
        \<and> add_task d1 a na (Some ''Low'') ta = Inr d2
        \<and> add_task d2 b nb (Some ''High'') tb = Inr d3
        \<and> add_task d3 c nc (Some ''Medium'') tc = Inr d4
        \<and> get_tasks d4 False =
            Inr [(3, c, nc, Some ''Medium'', 0), (1, a, na, Some ''Low'', 0),
                 (2, b, nb, Some ''High'', 0)]"
  by (simp add: init_db_def add_task_def next_id_def get_tasks_def listed_def order_by_def
      precedes_def select_cols_def)

section \<open>Row ids and the primary key\<close>

lemma fold_max_ge: "(a::int) \<le> fold max xs a"
  by (induction xs arbitrary: a) (auto intro: order_trans [OF max.cobounded2])

lemma fold_max_mem: "x \<in> set xs \<Longrightarrow> (x::int) \<le> fold max xs a"
proof (induction xs arbitrary: a)
  case Nil
  then show ?case by simp
next
  case (Cons y ys)
  then show ?case using fold_max_ge [of "max y a" ys] by auto
qed

lemma next_id_fresh: "r \<in> set (rows t) \<Longrightarrow> task_id r < next_id t"
  using fold_max_mem [of "task_id r" "map task_id (rows t)" "seq t"] by (simp add: next_id_def)

lemma next_id_seq: "seq t < next_id t"
  using fold_max_ge [of "seq t" "map task_id (rows t)"] by (simp add: next_id_def)

lemma next_id_not_listed: "next_id t \<notin> set (map task_id (rows t))"
proof
  assume "next_id t \<in> set (map task_id (rows t))"
  then obtain r where "r \<in> set (rows t)" "task_id r = next_id t" by auto
  with next_id_fresh [of r t] show False by simp
qed

lemma filter_unique:
  "distinct (map f xs) \<Longrightarrow> x \<in> set xs \<Longrightarrow> filter (\<lambda>y. f y = f x) xs = [x]"
proof (induction xs)
  case Nil
  then show ?case by simp
next
  case (Cons y ys)
  show ?case
  proof (cases "y = x")
    case True
    with Cons.prems have "\<forall>z\<in>set ys. f z \<noteq> f x" by (auto simp: image_iff)
    then have "filter (\<lambda>y. f y = f x) ys = []" by (simp add: filter_empty_conv)
    with True show ?thesis by simp
  next
    case False
    with Cons show ?thesis by force
  qed
qed

lemma wf_table_ids:
  "wf_table t \<longleftrightarrow>
     distinct (map task_id (rows t)) \<and> (\<forall>i\<in>set (map task_id (rows t)). i \<le> seq t)"
  by (auto simp: wf_table_def list_all_iff)

lemma wf_demo_table: "wf_table demo_table"
  by (simp add: wf_table_def demo_table_def)

lemma unique_by_id:
  assumes "wf_table t" "r \<in> set (rows t)" "s \<in> set (rows t)" "task_id r = task_id s"
  shows "r = s"
proof -
  from assms(1) have "inj_on task_id (set (rows t))"
    by (simp add: wf_table_def distinct_map)
  with assms(2-4) show ?thesis by (auto dest: inj_onD)
qed

lemma same_task_refl: "same_task r r"
  by (simp add: same_task_def)

lemma same_task_trans: "same_task a b \<Longrightarrow> same_task b c \<Longrightarrow> same_task a c"
  by (simp add: same_task_def)

text \<open>
  Each function of the store keeps the primary key, never lowers the sequence value, and
  leaves in the table only rows that were there before, up to \<open>priority\<close> and \<open>done\<close>, or
  rows with an id above the old sequence value.
\<close>

lemma add_task_wf:
  assumes "wf_table t"
  shows "\<exists>t'. add_task (Some t) ttl nts pri now = Inr (Some t') \<and> wf_table t'
     \<and> seq t < seq t'
     \<and> (\<exists>r\<in>set (rows t'). t_priority r = pri)
     \<and> (\<forall>r'\<in>set (rows t'). r' \<in> set (rows t) \<or> seq t < task_id r')"
proof -
  define new where "new = \<lparr>task_id = next_id t, t_title = ttl, t_notes = nts, t_priority = pri,
      t_done = 0, created_at = now\<rparr>"
  define t' where "t' = \<lparr>rows = rows t @ [new], seq = next_id t\<rparr>"
  have a: "add_task (Some t) ttl nts pri now = Inr (Some t')"
    by (simp add: add_task_def t'_def new_def)
  have le: "\<forall>i\<in>set (map task_id (rows t)). i \<le> next_id t"
    using next_id_fresh [of _ t] by (auto intro: less_imp_le)
  have ids: "map task_id (rows t') = map task_id (rows t) @ [next_id t]"
    by (simp add: t'_def new_def)
  from assms next_id_not_listed [of t] le have "wf_table t'"
    unfolding wf_table_ids ids by (simp add: t'_def)
  moreover have "seq t < seq t'" using next_id_seq [of t] by (simp add: t'_def)
  moreover have "new \<in> set (rows t')" "t_priority new = pri" by (simp_all add: t'_def new_def)
  moreover have "\<forall>r'\<in>set (rows t'). r' \<in> set (rows t) \<or> seq t < task_id r'"
    using next_id_seq [of t] by (auto simp: t'_def new_def)
  ultimately show ?thesis using a by blast
qed

lemma int64_flag: "int64 (if b then 1 else 0)"
  by (simp add: int64_def)

lemma set_done_overflow:
  "\<not> (int64 dn \<and> int64 tid) \<Longrightarrow> set_done (Some t) tid dn = Inl OverflowError"
  by (simp add: set_done_def)

lemma update_priority_overflow:
  "\<not> int64 tid \<Longrightarrow> update_priority (Some t) tid pri = Inl OverflowError"
  by (simp add: update_priority_def)

lemma delete_task_overflow:
  "\<not> int64 tid \<Longrightarrow> delete_task (Some t) tid = Inl OverflowError"
  by (simp add: delete_task_def)

lemma set_done_wf:
  assumes "wf_table t" and fits: "int64 dn" "int64 tid"
  shows "\<exists>t'. set_done (Some t) tid dn = Inr (Some t') \<and> wf_table t' \<and> seq t' = seq t
     \<and> (\<forall>r'\<in>set (rows t'). \<exists>r\<in>set (rows t). same_task r r')"
proof -
  define upd where "upd = (\<lambda>r::task. if task_id r = tid then r\<lparr>t_done := dn\<rparr> else r)"
  define t' where "t' = t\<lparr>rows := map upd (rows t)\<rparr>"
  have st: "same_task r (upd r)" for r by (simp add: upd_def same_task_def)
  have a: "set_done (Some t) tid dn = Inr (Some t')"
    using fits by (simp add: set_done_def t'_def upd_def)
  have ids: "map task_id (rows t') = map task_id (rows t)" by (simp add: t'_def upd_def)
  have sq: "seq t' = seq t" by (simp add: t'_def)
  from assms(1) have "wf_table t'" unfolding wf_table_ids ids sq .
  moreover have "\<forall>r'\<in>set (rows t'). \<exists>r\<in>set (rows t). same_task r r'"
    using st by (auto simp: t'_def)
  ultimately show ?thesis using a sq by blast
qed

lemma update_priority_wf:
  assumes "wf_table t" and fits: "int64 tid"
  shows "\<exists>t'. update_priority (Some t) tid pri = Inr (Some t') \<and> wf_table t' \<and> seq t' = seq t
     \<and> (\<forall>r'\<in>set (rows t'). \<exists>r\<in>set (rows t). same_task r r')
     \<and> (tid \<in> task_id ` set (rows t) \<longrightarrow> (\<exists>r\<in>set (rows t'). t_priority r = pri))"
proof -
  define upd where "upd = (\<lambda>r::task. if task_id r = tid then r\<lparr>t_priority := pri\<rparr> else r)"
  define t' where "t' = t\<lparr>rows := map upd (rows t)\<rparr>"
  have st: "same_task r (upd r)" for r by (simp add: upd_def same_task_def)
  have a: "update_priority (Some t) tid pri = Inr (Some t')"
    using fits by (simp add: update_priority_def t'_def upd_def)
  have ids: "map task_id (rows t') = map task_id (rows t)" by (simp add: t'_def upd_def)
  have sq: "seq t' = seq t" by (simp add: t'_def)
  from assms(1) have "wf_table t'" unfolding wf_table_ids ids sq .
  moreover have "\<forall>r'\<in>set (rows t'). \<exists>r\<in>set (rows t). same_task r r'"
    using st by (auto simp: t'_def)
  moreover have "\<exists>r\<in>set (rows t'). t_priority r = pri" if "tid \<in> task_id ` set (rows t)"
  proof -
    from that obtain r where r: "r \<in> set (rows t)" "task_id r = tid" by auto
    then have "upd r \<in> set (rows t')" "t_priority (upd r) = pri"
      by (simp_all add: t'_def upd_def)
    then show ?thesis by blast
  qed
  ultimately show ?thesis using a sq by blast
qed

lemma delete_task_wf:
  assumes "wf_table t" and fits: "int64 tid"
  shows "\<exists>t'. delete_task (Some t) tid = Inr (Some t') \<and> wf_table t' \<and> seq t' = seq t
     \<and> set (rows t') \<subseteq> set (rows t) \<and> tid \<notin> task_id ` set (rows t')"
proof -
  define t' where "t' = t\<lparr>rows := filter (\<lambda>r. task_id r \<noteq> tid) (rows t)\<rparr>"
  have a: "delete_task (Some t) tid = Inr (Some t')"
    using fits by (simp add: delete_task_def t'_def)
  from assms(1) have "wf_table t'"
    by (simp add: wf_table_def list_all_iff t'_def distinct_map_filter)
  moreover have "seq t' = seq t" "set (rows t') \<subseteq> set (rows t)" "tid \<notin> task_id ` set (rows t')"
    by (auto simp: t'_def)
  ultimately show ?thesis using a by blast
qed

text \<open>
  A call that fits returns a table; a call that does not fit raises OverflowError and
  leaves the table as it was.
\<close>

lemma store_step_fits:
  assumes "wf_table t" "op_fits x"
  shows "\<exists>t'. store_step (Some t) x = Inr (Some t') \<and> wf_table t' \<and> seq t \<le> seq t'
     \<and> (\<forall>r'\<in>set (rows t'). (\<exists>r\<in>set (rows t). same_task r r') \<or> seq t < task_id r')"
proof (cases x)
  case (AddTask ttl nts pri now)
  from add_task_wf [OF assms(1), of ttl nts pri now] obtain t' where
    t': "add_task (Some t) ttl nts pri now = Inr (Some t')" "wf_table t'" "seq t < seq t'"
      "\<forall>r'\<in>set (rows t'). r' \<in> set (rows t) \<or> seq t < task_id r'" by blast
  from t'(4) have "\<forall>r'\<in>set (rows t'). (\<exists>r\<in>set (rows t). same_task r r') \<or> seq t < task_id r'"
    using same_task_refl by blast
  with t'(1-3) AddTask show ?thesis by auto
next
  case (SetDone tid dn)
  with assms(2) have "int64 dn" "int64 tid" by simp_all
  from set_done_wf [OF assms(1) this] SetDone show ?thesis by auto
next
  case (UpdatePriority tid pri)
  with assms(2) have "int64 tid" by simp
  from update_priority_wf [OF assms(1) this, of pri] UpdatePriority show ?thesis by auto
next
  case (DeleteTask tid)
  with assms(2) have "int64 tid" by simp
  from delete_task_wf [OF assms(1) this] obtain t' where
    t': "delete_task (Some t) tid = Inr (Some t')" "wf_table t'" "seq t' = seq t"
      "set (rows t') \<subseteq> set (rows t)" by blast
  from t'(4) have "\<forall>r'\<in>set (rows t'). (\<exists>r\<in>set (rows t). same_task r r') \<or> seq t < task_id r'"
    using same_task_refl by blast
  with t'(1-3) DeleteTask show ?thesis by auto
qed

lemma store_step_misfit:
  "\<not> op_fits x \<Longrightarrow> store_step (Some t) x = Inl OverflowError"
  by (cases x) (simp_all add: set_done_def update_priority_def delete_task_def)

lemma store_run_wf:
  "wf_table t \<Longrightarrow> \<exists>t'. fst (store_run (Some t) xs) = Some t' \<and> wf_table t' \<and> seq t \<le> seq t'
     \<and> (list_all op_fits xs \<longrightarrow> snd (store_run (Some t) xs) = None)
     \<and> (\<forall>r'\<in>set (rows t'). (\<exists>r\<in>set (rows t). same_task r r') \<or> seq t < task_id r')"
proof (induction xs arbitrary: t)
  case Nil
  then show ?case using same_task_refl by auto
next
  case (Cons x xs)
  show ?case
  proof (cases "op_fits x")
    case False
    from store_step_misfit [OF this, of t]
    have "store_run (Some t) (x # xs) = (Some t, Some OverflowError)" by simp
    with Cons.prems False same_task_refl show ?thesis by auto
  next
    case True
    from store_step_fits [OF Cons.prems True] obtain t1 where
      t1: "store_step (Some t) x = Inr (Some t1)" "wf_table t1" "seq t \<le> seq t1"
        "\<forall>r'\<in>set (rows t1). (\<exists>r\<in>set (rows t). same_task r r') \<or> seq t < task_id r'" by blast
    from Cons.IH [OF t1(2)] obtain t2 where
      t2: "fst (store_run (Some t1) xs) = Some t2" "wf_table t2" "seq t1 \<le> seq t2"
        "list_all op_fits xs \<longrightarrow> snd (store_run (Some t1) xs) = None"
        "\<forall>r'\<in>set (rows t2). (\<exists>r\<in>set (rows t1). same_task r r') \<or> seq t1 < task_id r'" by blast
    have run: "store_run (Some t) (x # xs) = store_run (Some t1) xs" using t1(1) by simp
    have "(\<exists>r\<in>set (rows t). same_task r r') \<or> seq t < task_id r'" if "r' \<in> set (rows t2)" for r'
    proof -
      from t2(5) that consider r1 where "r1 \<in> set (rows t1)" "same_task r1 r'"
        | "seq t1 < task_id r'" by blast
      then show ?thesis
      proof cases
        case 1
        from t1(4) 1(1) consider r where "r \<in> set (rows t)" "same_task r r1"
          | "seq t < task_id r1" by blast
        then show ?thesis
        proof cases
          case 1
          with \<open>same_task r1 r'\<close> same_task_trans show ?thesis by blast
        next
          case 2
          with \<open>same_task r1 r'\<close> show ?thesis by (simp add: same_task_def)
        qed
      next
        case 2
        with t1(3) show ?thesis by simp
      qed
    qed
    with run t2(1,2,4) t1(3) t2(3) True show ?thesis by auto
  qed
qed

section \<open>Mutations that match no row\<close>

lemma absent_set_done:
  assumes "tid \<notin> task_id ` set (rows t)" and fits: "int64 dn" "int64 tid"
  shows "set_done (Some t) tid dn = Inr (Some t)"
proof -
  from assms(1)
  have "map (\<lambda>r. if task_id r = tid then r\<lparr>t_done := dn\<rparr> else r) (rows t) = rows t"
    by (intro map_idI) auto
  with fits show ?thesis by (simp add: set_done_def)
qed

lemma absent_update_priority:
  assumes "tid \<notin> task_id ` set (rows t)" and fits: "int64 tid"
  shows "update_priority (Some t) tid pri = Inr (Some t)"
proof -
  from assms(1)
  have "map (\<lambda>r. if task_id r = tid then r\<lparr>t_priority := pri\<rparr> else r) (rows t) = rows t"
    by (intro map_idI) auto
  with fits show ?thesis by (simp add: update_priority_def)
qed

lemma absent_delete_task:
  assumes "tid \<notin> task_id ` set (rows t)" and fits: "int64 tid"
  shows "delete_task (Some t) tid = Inr (Some t)"
proof -
  from assms(1) have "filter (\<lambda>r. task_id r \<noteq> tid) (rows t) = rows t"
    by (intro filter_True) auto
  with fits show ?thesis by (simp add: delete_task_def)
qed

text \<open>
  An id that the table has issued and that no row carries stays unused, whatever the
  store is asked to do next: AUTOINCREMENT hands out ids above the sequence value only.
\<close>

lemma issued_id_stays_absent:
  assumes wf: "wf_table t" and issued: "tid \<le> seq t" and absent: "tid \<notin> task_id ` set (rows t)"
  shows "\<exists>t'. fst (store_run (Some t) xs) = Some t' \<and> tid \<notin> task_id ` set (rows t')
     \<and> (list_all op_fits xs \<longrightarrow> snd (store_run (Some t) xs) = None)"
proof -
  from store_run_wf [OF wf, of xs] obtain t' where
    t': "fst (store_run (Some t) xs) = Some t'"
      "list_all op_fits xs \<longrightarrow> snd (store_run (Some t) xs) = None"
      "\<forall>r'\<in>set (rows t'). (\<exists>r\<in>set (rows t). same_task r r') \<or> seq t < task_id r'" by blast
  have "tid \<notin> task_id ` set (rows t')"
  proof
    assume "tid \<in> task_id ` set (rows t')"
    then obtain r' where r': "r' \<in> set (rows t')" "task_id r' = tid" by auto
    from t'(3) r'(1) consider r where "r \<in> set (rows t)" "same_task r r'"
      | "seq t < task_id r'" by blast
    then show False
    proof cases
      case 1
      with r'(2) absent show False by (auto simp: same_task_def)
    next
      case 2
      with r'(2) issued show False by simp
    qed
  qed
  with t'(1,2) show ?thesis by blast
qed

section \<open>The claims about the task store\<close>

text \<open>
  Claim C9. \<open>init_db\<close> is idempotent: from any state of the database file, a second call
  in sequence returns, without an exception, the very state the first call produced; and
  on a file that already holds the table a call changes nothing, so every row with all
  its fields and the sequence value are preserved.
\<close>

theorem init_db_idempotent:
  "(\<exists>d1. init_db d = Inr d1 \<and> init_db d1 = Inr d1) \<and> init_db (Some t) = Inr (Some t)"
  by (cases d) (simp_all add: init_db_def)

lemma add_task_Some_listed:
  "\<exists>t' l l'. add_task (Some t) ttl nts pri now = Inr (Some t')
     \<and> get_tasks (Some t) True = Inr l \<and> get_tasks (Some t') True = Inr l'
     \<and> mset l' = add_mset (next_id t, ttl, nts, pri, 0) (mset l)
     \<and> next_id t \<notin> row_id ` set l"
proof -
  define new where "new = \<lparr>task_id = next_id t, t_title = ttl, t_notes = nts, t_priority = pri,
      t_done = 0, created_at = now\<rparr>"
  define t' where "t' = \<lparr>rows = rows t @ [new], seq = next_id t\<rparr>"
  have a: "add_task (Some t) ttl nts pri now = Inr (Some t')"
    by (simp add: add_task_def t'_def new_def)
  have "mset (listed True t') = add_mset new (mset (listed True t))"
    by (simp add: mset_listed t'_def)
  then have "mset (map select_cols (listed True t'))
      = add_mset (select_cols new) (mset (map select_cols (listed True t)))"
    by simp
  moreover have "select_cols new = (next_id t, ttl, nts, pri, 0)"
    by (simp add: select_cols_def new_def)
  moreover have "next_id t \<notin> row_id ` set (map select_cols (listed True t))"
    using next_id_not_listed [of t] by (auto simp: set_listed)
  ultimately show ?thesis using a get_tasks_Some by metis
qed

text \<open>
  Claim C4. From any state of the store (initialised as the program does on every run),
  for every title, notes and priority - in particular a non-empty title and one of the
  three labels - \<open>add_task\<close> followed by the listing with completed tasks yields the
  rows listed before plus exactly one more; that row carries the given title, notes and
  priority, its done flag is 0, and its id is not the id of any row listed before.
\<close>

theorem add_task_then_listed:
  "\<exists>d0 d' l l' i. init_db d = Inr d0
     \<and> add_task d0 ttl nts pri now = Inr d'
     \<and> get_tasks d0 True = Inr l \<and> get_tasks d' True = Inr l'
     \<and> mset l' = add_mset (i, ttl, nts, pri, 0) (mset l)
     \<and> i \<notin> row_id ` set l"
proof -
  obtain t where "init_db d = Inr (Some t)"
    by (cases d) (simp_all add: init_db_def)
  with add_task_Some_listed [of t ttl nts pri now] show ?thesis by blast
qed

text \<open>
  Claim C6. On a table that respects its primary key, for every id present in it (an id
  of the column's 64 bits): after \<open>set_done\<close> with the value 1 (true), the listing
  without completed tasks contains no row with that id, and the listing with completed
  tasks contains exactly one row with that id, whose done flag is 1.
\<close>

theorem set_done_listing:
  assumes wf: "wf_table t" and mem: "tid \<in> task_id ` set (rows t)" and fits: "int64 tid"
  shows "\<exists>t' l0 l1 r. set_done (Some t) tid 1 = Inr (Some t')
     \<and> get_tasks (Some t') False = Inr l0 \<and> tid \<notin> row_id ` set l0
     \<and> get_tasks (Some t') True = Inr l1
     \<and> filter (\<lambda>x. row_id x = tid) l1 = [r] \<and> row_done r = 1"
proof -
  define upd where "upd = (\<lambda>r::task. if task_id r = tid then r\<lparr>t_done := 1\<rparr> else r)"
  define t' where "t' = t\<lparr>rows := map upd (rows t)\<rparr>"
  have sd: "set_done (Some t) tid 1 = Inr (Some t')"
    using fits by (simp add: set_done_def t'_def upd_def int64_def)
  have ids: "map task_id (rows t') = map task_id (rows t)"
    by (simp add: t'_def upd_def)
  from wf have dist: "distinct (map task_id (rows t'))"
    by (simp add: ids wf_table_def)
  from mem have "tid \<in> set (map task_id (rows t'))" by (simp add: ids)
  then obtain r0 where r0: "r0 \<in> set (rows t')" "task_id r0 = tid" by auto
  have upd_id: "task_id (upd r) = task_id r" for r
    by (simp add: upd_def)
  have upd_done: "task_id r = tid \<Longrightarrow> t_done (upd r) = 1" for r
    by (simp add: upd_def)
  have done1: "t_done r = 1" if "r \<in> set (rows t')" "task_id r = tid" for r
  proof -
    from that(1) obtain r1 where "r = upd r1" by (auto simp: t'_def)
    with that(2) upd_id upd_done show ?thesis by simp
  qed
  have l0: "tid \<notin> row_id ` set (map select_cols (listed False t'))"
    using done1 by (auto simp: set_listed)
  have r0l: "r0 \<in> set (listed True t')" using r0 by (simp add: set_listed)
  have "mset (map task_id (listed True t')) = mset (map task_id (rows t'))"
    by (simp add: mset_listed)
  with dist have "distinct (map task_id (listed True t'))"
    by (metis mset_eq_imp_distinct_iff)
  from filter_unique [OF this r0l]
  have "filter (\<lambda>y. task_id y = tid) (listed True t') = [r0]" by (simp add: r0)
  then have "filter (\<lambda>x. row_id x = tid) (map select_cols (listed True t')) = [select_cols r0]"
    by (simp add: filter_map comp_def)
  moreover have "row_done (select_cols r0) = 1" using done1 r0 by simp
  ultimately show ?thesis using sd l0 get_tasks_Some by blast
qed

theorem set_done_listing_witness:
  "wf_table demo_table \<and> 1 \<in> task_id ` set (rows demo_table) \<and> int64 1
   \<and> (\<exists>t' l0 l1 r. set_done (Some demo_table) 1 1 = Inr (Some t')
        \<and> get_tasks (Some t') False = Inr l0 \<and> 1 \<notin> row_id ` set l0
        \<and> get_tasks (Some t') True = Inr l1
        \<and> filter (\<lambda>x. row_id x = 1) l1 = [r] \<and> row_done r = 1)"
proof -
  have m: "1 \<in> task_id ` set (rows demo_table)" by (simp add: demo_table_def)
  have f: "int64 1" by (simp add: int64_def)
  from set_done_listing [OF wf_demo_table m f] wf_demo_table m f show ?thesis by (intro conjI)
qed

text \<open>
  Claim C7. \<open>delete_task\<close> removes the task for good, and mutations of a missing id are
  silent no-ops. For every id and done value that fit the 64 bits of an SQLite integer:
  after \<open>delete_task\<close> on any table, neither listing contains a row with that id, and
  \<open>set_done\<close>, \<open>update_priority\<close> and \<open>delete_task\<close> on that id each return without an
  exception and leave the whole database state as it was. When the table respects its
  primary key and has issued the id, this stays so in the state that any further
  sequence of calls of the store, \<open>add_task\<close> included, leaves behind: the id is never
  given to another row. An id outside the 64 bits is refused with OverflowError when it
  is bound, and the table is left as it was.
\<close>

theorem delete_task_permanent:
  assumes fits: "int64 tid" "int64 dn"
  shows "(\<exists>t'. delete_task (Some t) tid = Inr (Some t')
       \<and> (\<exists>l. get_tasks (Some t') False = Inr l \<and> tid \<notin> row_id ` set l)
       \<and> (\<exists>l. get_tasks (Some t') True = Inr l \<and> tid \<notin> row_id ` set l)
       \<and> set_done (Some t') tid dn = Inr (Some t')
       \<and> update_priority (Some t') tid pri = Inr (Some t')
       \<and> delete_task (Some t') tid = Inr (Some t'))
   \<and> (wf_table t \<and> tid \<le> seq t \<longrightarrow>
        (\<exists>t' t''. delete_task (Some t) tid = Inr (Some t')
           \<and> fst (store_run (Some t') xs) = Some t''
           \<and> (list_all op_fits xs \<longrightarrow> snd (store_run (Some t') xs) = None)
           \<and> (\<exists>l. get_tasks (Some t'') False = Inr l \<and> tid \<notin> row_id ` set l)
           \<and> (\<exists>l. get_tasks (Some t'') True = Inr l \<and> tid \<notin> row_id ` set l)
           \<and> set_done (Some t'') tid dn = Inr (Some t'')
           \<and> update_priority (Some t'') tid pri = Inr (Some t'')
           \<and> delete_task (Some t'') tid = Inr (Some t'')))
   \<and> (\<not> int64 k \<longrightarrow> delete_task (Some t) k = Inl OverflowError)"
proof -
  have noop: "(\<exists>l. get_tasks (Some s) False = Inr l \<and> tid \<notin> row_id ` set l)
       \<and> (\<exists>l. get_tasks (Some s) True = Inr l \<and> tid \<notin> row_id ` set l)
       \<and> set_done (Some s) tid dn = Inr (Some s)
       \<and> update_priority (Some s) tid pri = Inr (Some s)
       \<and> delete_task (Some s) tid = Inr (Some s)" if "tid \<notin> task_id ` set (rows s)" for s
    using listing_excludes [OF that, of False] listing_excludes [OF that, of True]
      absent_set_done [OF that fits(2) fits(1)] absent_update_priority [OF that fits(1)]
      absent_delete_task [OF that fits(1)]
    by blast
  define t' where "t' = t\<lparr>rows := filter (\<lambda>r. task_id r \<noteq> tid) (rows t)\<rparr>"
  have del: "delete_task (Some t) tid = Inr (Some t')"
    using fits(1) by (simp add: delete_task_def t'_def)
  have absent: "tid \<notin> task_id ` set (rows t')"
    by (auto simp: t'_def)
  have first: "\<exists>t'. delete_task (Some t) tid = Inr (Some t')
       \<and> (\<exists>l. get_tasks (Some t') False = Inr l \<and> tid \<notin> row_id ` set l)
       \<and> (\<exists>l. get_tasks (Some t') True = Inr l \<and> tid \<notin> row_id ` set l)
       \<and> set_done (Some t') tid dn = Inr (Some t')
       \<and> update_priority (Some t') tid pri = Inr (Some t')
       \<and> delete_task (Some t') tid = Inr (Some t')"
    using del noop [OF absent] by blast
  have later: "\<exists>t' t''. delete_task (Some t) tid = Inr (Some t')
           \<and> fst (store_run (Some t') xs) = Some t''
           \<and> (list_all op_fits xs \<longrightarrow> snd (store_run (Some t') xs) = None)
           \<and> (\<exists>l. get_tasks (Some t'') False = Inr l \<and> tid \<notin> row_id ` set l)
           \<and> (\<exists>l. get_tasks (Some t'') True = Inr l \<and> tid \<notin> row_id ` set l)
           \<and> set_done (Some t'') tid dn = Inr (Some t'')
           \<and> update_priority (Some t'') tid pri = Inr (Some t'')
           \<and> delete_task (Some t'') tid = Inr (Some t'')"
    if wf: "wf_table t" and issued: "tid \<le> seq t"
  proof -
    from delete_task_wf [OF wf fits(1)] del have wf': "wf_table t'" and sq: "seq t' = seq t"
      by auto
    from issued sq have "tid \<le> seq t'" by simp
    from issued_id_stays_absent [OF wf' this absent, of xs] obtain t'' where
      t'': "fst (store_run (Some t') xs) = Some t''" "tid \<notin> task_id ` set (rows t'')"
        "list_all op_fits xs \<longrightarrow> snd (store_run (Some t') xs) = None" by blast
    from del t''(1,3) noop [OF t''(2)] show ?thesis by blast
  qed
  from first later delete_task_overflow [of k t] show ?thesis by blast
qed

theorem delete_task_permanent_witness:
  "int64 1 \<and> int64 0 \<and> wf_table demo_table \<and> 1 \<le> seq demo_table
   \<and> (\<exists>t' t''. delete_task (Some demo_table) 1 = Inr (Some t')
         \<and> store_run (Some t')
              [AddTask ''call bank'' None (Some ''Low'') ''2024-05-02T08:00:00'', SetDone 1 1]
            = (Some t'', None)
         \<and> map task_id (rows t'') = [2, 3]
         \<and> set_done (Some t'') 1 0 = Inr (Some t'')
         \<and> update_priority (Some t'') 1 (Some ''High'') = Inr (Some t'')
         \<and> delete_task (Some t'') 1 = Inr (Some t''))
   \<and> delete_task (Some demo_table) (2 ^ 63) = Inl OverflowError"
proof -
  have issued: "1 \<le> seq demo_table" by (simp add: demo_table_def)
  have f1: "int64 1" and f0: "int64 0" by (simp_all add: int64_def)
  have ops: "list_all op_fits
      [AddTask ''call bank'' None (Some ''Low'') ''2024-05-02T08:00:00'', SetDone 1 1]"
    by (simp add: int64_def)
  note th0 = delete_task_permanent [OF f1 f0, of demo_table "Some ''High''"
      "[AddTask ''call bank'' None (Some ''Low'') ''2024-05-02T08:00:00'', SetDone 1 1]"
      "2 ^ 63", THEN conjunct2]
  have big: "\<not> int64 (2 ^ 63)" by (simp add: int64_def)
  from th0 [THEN conjunct2] big
  have over: "delete_task (Some demo_table) (2 ^ 63) = Inl OverflowError" by blast
  note th = th0 [THEN conjunct1]
  with wf_demo_table issued ops obtain t' t'' where
    a: "delete_task (Some demo_table) 1 = Inr (Some t')"
    and b: "fst (store_run (Some t')
              [AddTask ''call bank'' None (Some ''Low'') ''2024-05-02T08:00:00'', SetDone 1 1])
            = Some t''"
      "snd (store_run (Some t')
              [AddTask ''call bank'' None (Some ''Low'') ''2024-05-02T08:00:00'', SetDone 1 1])
            = None"
    and c: "set_done (Some t'') 1 0 = Inr (Some t'')"
      "update_priority (Some t'') 1 (Some ''High'') = Inr (Some t'')"
      "delete_task (Some t'') 1 = Inr (Some t'')"
    by blast
  from b have run: "store_run (Some t')
              [AddTask ''call bank'' None (Some ''Low'') ''2024-05-02T08:00:00'', SetDone 1 1]
            = (Some t'', None)"
    by (simp add: prod_eq_iff)
  from a run have "map task_id (rows t'') = [2, 3]"
    by (auto simp: delete_task_def demo_table_def add_task_def set_done_def next_id_def int64_def)
  with a run c have "\<exists>t' t''. delete_task (Some demo_table) 1 = Inr (Some t')
         \<and> store_run (Some t')
              [AddTask ''call bank'' None (Some ''Low'') ''2024-05-02T08:00:00'', SetDone 1 1]
            = (Some t'', None)
         \<and> map task_id (rows t'') = [2, 3]
         \<and> set_done (Some t'') 1 0 = Inr (Some t'')
         \<and> update_priority (Some t'') 1 (Some ''High'') = Inr (Some t'')
         \<and> delete_task (Some t'') 1 = Inr (Some t'')"
    by (intro exI [of _ t'] exI [of _ t''] conjI)
  with f1 f0 wf_demo_table issued over show ?thesis by (intro conjI)
qed

lemma set_done_Some:
  "(int64 dn \<and> int64 tid \<longrightarrow>
      (\<exists>t'. set_done (Some t) tid dn = Inr (Some t') \<and> seq t' = seq t
         \<and> length (rows t') = length (rows t)
         \<and> (\<forall>i<length (rows t). rows t' ! i =
              (if task_id (rows t ! i) = tid then (rows t ! i)\<lparr>t_done := dn\<rparr> else rows t ! i))))
   \<and> (\<not> (int64 dn \<and> int64 tid) \<longrightarrow> set_done (Some t) tid dn = Inl OverflowError)"
  by (simp add: set_done_def)

lemma update_priority_Some:
  "(int64 tid \<longrightarrow>
      (\<exists>t'. update_priority (Some t) tid pri = Inr (Some t') \<and> seq t' = seq t
         \<and> length (rows t') = length (rows t)
         \<and> (\<forall>i<length (rows t). rows t' ! i =
              (if task_id (rows t ! i) = tid then (rows t ! i)\<lparr>t_priority := pri\<rparr>
               else rows t ! i))))
   \<and> (\<not> int64 tid \<longrightarrow> update_priority (Some t) tid pri = Inl OverflowError)"
  by (simp add: update_priority_def)

text \<open>
  Claim C8. On a table that respects its primary key, in the state that any sequence of
  calls of the store leaves behind - \<open>set_done\<close>, \<open>update_priority\<close> and \<open>delete_task\<close>,
  and \<open>add_task\<close> as well - every row of the starting table that is still there, found
  by its id, has the \<open>id\<close>, \<open>title\<close>, \<open>notes\<close> and \<open>created_at\<close> it started with; when
  every call fits the 64 bits, the sequence ends without an exception. \<open>set_done\<close>
  rewrites only the \<open>done\<close> field of the rows with the given id, and \<open>update_priority\<close>
  only their \<open>priority\<close> field: every other field, every other row, the order of the rows
  and the sequence value stay as they were. A call whose id or done value does not fit
  the 64 bits raises OverflowError and changes nothing.
\<close>

theorem mutations_keep_identity:
  assumes wf: "wf_table t"
  shows "(\<exists>t'. fst (store_run (Some t) xs) = Some t'
            \<and> (list_all op_fits xs \<longrightarrow> snd (store_run (Some t) xs) = None)
            \<and> (\<forall>r'\<in>set (rows t'). \<forall>r\<in>set (rows t). task_id r = task_id r' \<longrightarrow> same_task r r'))
     \<and> (int64 dn \<and> int64 tid \<longrightarrow>
          (\<exists>t'. set_done (Some t) tid dn = Inr (Some t') \<and> seq t' = seq t
            \<and> length (rows t') = length (rows t)
            \<and> (\<forall>i<length (rows t). rows t' ! i =
                 (if task_id (rows t ! i) = tid then (rows t ! i)\<lparr>t_done := dn\<rparr> else rows t ! i))))
     \<and> (\<not> (int64 dn \<and> int64 tid) \<longrightarrow> set_done (Some t) tid dn = Inl OverflowError)
     \<and> (int64 tid \<longrightarrow>
          (\<exists>t'. update_priority (Some t) tid pri = Inr (Some t') \<and> seq t' = seq t
            \<and> length (rows t') = length (rows t)
            \<and> (\<forall>i<length (rows t). rows t' ! i =
                 (if task_id (rows t ! i) = tid then (rows t ! i)\<lparr>t_priority := pri\<rparr>
                  else rows t ! i))))
     \<and> (\<not> int64 tid \<longrightarrow> update_priority (Some t) tid pri = Inl OverflowError)"
proof -
  from store_run_wf [OF wf, of xs] obtain t' where
    t': "fst (store_run (Some t) xs) = Some t'"
      "list_all op_fits xs \<longrightarrow> snd (store_run (Some t) xs) = None"
      "\<forall>r'\<in>set (rows t'). (\<exists>r\<in>set (rows t). same_task r r') \<or> seq t < task_id r'" by blast
  have "same_task r r'" if "r' \<in> set (rows t')" "r \<in> set (rows t)" "task_id r = task_id r'" for r r'
  proof -
    from wf that(2) have "task_id r \<le> seq t" by (auto simp: wf_table_ids)
    with that(3) have "\<not> seq t < task_id r'" by simp
    with t'(3) that(1) obtain r0 where r0: "r0 \<in> set (rows t)" "same_task r0 r'" by blast
    then have "task_id r0 = task_id r" using that(3) by (simp add: same_task_def)
    from unique_by_id [OF wf r0(1) that(2) this] r0(2) show ?thesis by simp
  qed
  with t'(1,2) have "\<exists>t'. fst (store_run (Some t) xs) = Some t'
            \<and> (list_all op_fits xs \<longrightarrow> snd (store_run (Some t) xs) = None)
            \<and> (\<forall>r'\<in>set (rows t'). \<forall>r\<in>set (rows t). task_id r = task_id r' \<longrightarrow> same_task r r')"
    by blast
  with set_done_Some [of dn tid t] update_priority_Some [of tid t pri] show ?thesis
    by (intro conjI) (elim conjE, assumption)+
qed

theorem mutations_keep_identity_witness:
  "wf_table demo_table
   \<and> (\<exists>t'. store_run (Some demo_table)
              [SetDone 1 1, UpdatePriority 2 (Some ''High''), DeleteTask 1,
               AddTask ''call bank'' None (Some ''Low'') ''2024-05-02T08:00:00'']
              = (Some t', None)
          \<and> map task_id (rows t') = [2, 3]
          \<and> (\<forall>r'\<in>set (rows t'). \<forall>r\<in>set (rows demo_table).
                task_id r = task_id r' \<longrightarrow> same_task r r'))
   \<and> (\<exists>t'. set_done (Some demo_table) 1 1 = Inr (Some t') \<and> seq t' = 2
          \<and> length (rows t') = 2 \<and> t_done (rows t' ! 0) = 1 \<and> rows t' ! 1 = rows demo_table ! 1)
   \<and> set_done (Some demo_table) 1 (2 ^ 63) = Inl OverflowError
   \<and> (\<exists>t'. update_priority (Some demo_table) 2 (Some ''Medium'') = Inr (Some t') \<and> seq t' = 2
          \<and> length (rows t') = 2 \<and> rows t' ! 0 = rows demo_table ! 0
          \<and> t_priority (rows t' ! 1) = Some ''Medium'')
   \<and> update_priority (Some demo_table) (2 ^ 63) (Some ''Medium'') = Inl OverflowError"
proof -
  have ops: "list_all op_fits
      [SetDone 1 1, UpdatePriority 2 (Some ''High''), DeleteTask 1,
       AddTask ''call bank'' None (Some ''Low'') ''2024-05-02T08:00:00'']"
    by (simp add: int64_def)
  from mutations_keep_identity [OF wf_demo_table, THEN conjunct1,
      of "[SetDone 1 1, UpdatePriority 2 (Some ''High''), DeleteTask 1,
           AddTask ''call bank'' None (Some ''Low'') ''2024-05-02T08:00:00'']"] ops
  obtain t' where
    run1: "fst (store_run (Some demo_table)
              [SetDone 1 1, UpdatePriority 2 (Some ''High''), DeleteTask 1,
               AddTask ''call bank'' None (Some ''Low'') ''2024-05-02T08:00:00''])
              = Some t'"
      "snd (store_run (Some demo_table)
              [SetDone 1 1, UpdatePriority 2 (Some ''High''), DeleteTask 1,
               AddTask ''call bank'' None (Some ''Low'') ''2024-05-02T08:00:00''])
              = None"
    and same: "\<forall>r'\<in>set (rows t'). \<forall>r\<in>set (rows demo_table).
                task_id r = task_id r' \<longrightarrow> same_task r r'"
    by blast
  from run1 have run: "store_run (Some demo_table)
              [SetDone 1 1, UpdatePriority 2 (Some ''High''), DeleteTask 1,
               AddTask ''call bank'' None (Some ''Low'') ''2024-05-02T08:00:00'']
              = (Some t', None)"
    by (simp add: prod_eq_iff)
  then have ids: "map task_id (rows t') = [2, 3]"
    by (auto simp: delete_task_def demo_table_def add_task_def set_done_def update_priority_def
        next_id_def int64_def)
  have a: "\<exists>t'. set_done (Some demo_table) 1 1 = Inr (Some t') \<and> seq t' = 2
          \<and> length (rows t') = 2 \<and> t_done (rows t' ! 0) = 1 \<and> rows t' ! 1 = rows demo_table ! 1"
    by (simp add: set_done_def demo_table_def int64_def)
  have b: "\<exists>t'. update_priority (Some demo_table) 2 (Some ''Medium'') = Inr (Some t') \<and> seq t' = 2
          \<and> length (rows t') = 2 \<and> rows t' ! 0 = rows demo_table ! 0
          \<and> t_priority (rows t' ! 1) = Some ''Medium''"
    by (simp add: update_priority_def demo_table_def int64_def)
  have c: "set_done (Some demo_table) 1 (2 ^ 63) = Inl OverflowError"
    by (simp add: set_done_def int64_def)
  have d: "update_priority (Some demo_table) (2 ^ 63) (Some ''Medium'') = Inl OverflowError"
    by (simp add: update_priority_def int64_def)
  from run ids same have "\<exists>t'. store_run (Some demo_table)
              [SetDone 1 1, UpdatePriority 2 (Some ''High''), DeleteTask 1,
               AddTask ''call bank'' None (Some ''Low'') ''2024-05-02T08:00:00'']
              = (Some t', None)
          \<and> map task_id (rows t') = [2, 3]
          \<and> (\<forall>r'\<in>set (rows t'). \<forall>r\<in>set (rows demo_table).
                task_id r = task_id r' \<longrightarrow> same_task r r')"
    by (intro exI [of _ t'] conjI)
  with a b c d wf_demo_table show ?thesis by (intro conjI)
qed

text \<open>
  Claim C1. \<open>get_tasks\<close> returns the selected rows (all rows when completed tasks are
  shown, the rows with \<open>done = 0\<close> otherwise) ordered by the keys of the query: \<open>done\<close>
  ascending, only when completed tasks are shown; then the priority text descending in
  bytewise order; then \<open>created_at\<close> descending. So three open tasks A (Low), B (High)
  and C (Medium), added in this order to a fresh store, are listed as C, A, B.
\<close>

theorem get_tasks_order:
  "(\<exists>l. get_tasks (Some t) sd = Inr (map select_cols l)
       \<and> mset l = mset (filter (\<lambda>r. sd \<or> t_done r = 0) (rows t))
       \<and> (\<forall>i j. i < j \<and> j < length l \<longrightarrow>
             (sd \<longrightarrow> t_done (l ! i) \<le> t_done (l ! j))
           \<and> ((sd \<longrightarrow> t_done (l ! i) = t_done (l ! j)) \<longrightarrow> t_priority (l ! j) \<le> t_priority (l ! i))
           \<and> ((sd \<longrightarrow> t_done (l ! i) = t_done (l ! j)) \<and> t_priority (l ! i) = t_priority (l ! j)
                 \<longrightarrow> created_at (l ! j) \<le> created_at (l ! i))))
   \<and> (\<exists>d1 d2 d3 d4. init_db None = Inr d1
        \<and> add_task d1 a na (Some ''Low'') ta = Inr d2
        \<and> add_task d2 b nb (Some ''High'') tb = Inr d3
        \<and> add_task d3 c nc (Some ''Medium'') tc = Inr d4
        \<and> get_tasks d4 False =
            Inr [(3, c, nc, Some ''Medium'', 0), (1, a, na, Some ''Low'', 0),
                 (2, b, nb, Some ''High'', 0)])"
proof -
  have m: "mset (listed sd t) = mset (filter (\<lambda>r. sd \<or> t_done r = 0) (rows t))"
    by (cases sd) (simp_all add: mset_listed)
  have "precedes sd (listed sd t ! i) (listed sd t ! j)" if "i < j" "j < length (listed sd t)" for i j
    using sorted_listed [of sd t] that by (simp add: sorted_wrt_iff_nth_less)
  then have "\<forall>i j. i < j \<and> j < length (listed sd t) \<longrightarrow>
             (sd \<longrightarrow> t_done (listed sd t ! i) \<le> t_done (listed sd t ! j))
           \<and> ((sd \<longrightarrow> t_done (listed sd t ! i) = t_done (listed sd t ! j))
                 \<longrightarrow> t_priority (listed sd t ! j) \<le> t_priority (listed sd t ! i))
           \<and> ((sd \<longrightarrow> t_done (listed sd t ! i) = t_done (listed sd t ! j))
                 \<and> t_priority (listed sd t ! i) = t_priority (listed sd t ! j)
                 \<longrightarrow> created_at (listed sd t ! j) \<le> created_at (listed sd t ! i))"
    using precedes_keys by blast
  with m get_tasks_Some [of t sd] three_tasks_listing [of a na ta b nb tb c nc tc]
  show ?thesis by blast
qed

theorem get_tasks_order_witness:
  "\<exists>l. get_tasks (Some demo_table) True = Inr (map select_cols l) \<and> length l = 2
     \<and> t_done (l ! 0) \<le> t_done (l ! 1)"
proof -
  from get_tasks_order [of demo_table True, THEN conjunct1] obtain l where
    l: "get_tasks (Some demo_table) True = Inr (map select_cols l)"
      "mset l = mset (filter (\<lambda>r. True \<or> t_done r = 0) (rows demo_table))"
    and ord: "\<forall>i j. i < j \<and> j < length l \<longrightarrow>
             (True \<longrightarrow> t_done (l ! i) \<le> t_done (l ! j))
           \<and> ((True \<longrightarrow> t_done (l ! i) = t_done (l ! j)) \<longrightarrow> t_priority (l ! j) \<le> t_priority (l ! i))
           \<and> ((True \<longrightarrow> t_done (l ! i) = t_done (l ! j)) \<and> t_priority (l ! i) = t_priority (l ! j)
                 \<longrightarrow> created_at (l ! j) \<le> created_at (l ! i))"
    by blast
  from l(2) have "length l = length (filter (\<lambda>r. True \<or> t_done r = 0) (rows demo_table))"
    by (rule mset_eq_length)
  then have len: "length l = 2" by (simp add: demo_table_def)
  from ord have "0 < (1::nat) \<and> 1 < length l \<longrightarrow> t_done (l ! 0) \<le> t_done (l ! 1)" by blast
  with len have "t_done (l ! 0) \<le> t_done (l ! 1)" by simp
  with l(1) len show ?thesis by blast
qed

section \<open>The claims about the priority advisor\<close>

lemma ai_try_no_field: "\<not> has_labels_field data \<Longrightarrow> ai_try (BodyJson data) \<noteq> Inr (Some v)"
proof (cases data)
  case (JObj kvs)
  assume "\<not> has_labels_field data"
  with JObj show ?thesis by (simp add: ai_try_def)
qed (simp_all add: ai_try_def split: sum.splits bool.splits)

lemma ai_never_raises: "\<exists>v. ai_suggest_priority post token ttl nts = Inr v"
  by (simp add: ai_suggest_priority_def split: sum.splits option.splits)

text \<open>
  Claim C5. For every title and notes (and token), when the remote call fails - the post
  raises an exception such as a connection error or a timeout, the body is not valid JSON,
  or the parsed body has no \<open>labels\<close> field - \<open>ai_suggest_priority\<close> returns the value
  \<open>"Medium"\<close>; it returns, so it raises nothing to its caller.
\<close>

theorem ai_suggest_priority_fallback:
  assumes "post (hf_request token ttl nts) = PostRaised e
         \<or> post (hf_request token ttl nts) = BodyNotJson
         \<or> (\<exists>data. post (hf_request token ttl nts) = BodyJson data \<and> \<not> has_labels_field data)"
  shows "ai_suggest_priority post token ttl nts = Inr (JStr ''Medium'')"
proof -
  from assms have "\<forall>v. ai_try (post (hf_request token ttl nts)) \<noteq> Inr (Some v)"
    using ai_try_no_field by (auto simp: ai_try_def)
  then show ?thesis
    by (simp add: ai_suggest_priority_def split: sum.splits option.splits)
qed

theorem ai_suggest_priority_fallback_witness:
  "ai_suggest_priority (\<lambda>rq. PostRaised Timeout) None ''pay rent'' ''before Friday'' = Inr (JStr ''Medium'')
   \<and> ai_suggest_priority (\<lambda>rq. BodyNotJson) (Some ''hf_token'') ''pay rent'' [] = Inr (JStr ''Medium'')
   \<and> ai_suggest_priority (\<lambda>rq. BodyJson (JObj [(''error'', JStr ''Model is loading'')])) None
        ''pay rent'' [] = Inr (JStr ''Medium'')"
proof -
  have a: "ai_suggest_priority (\<lambda>rq. PostRaised Timeout) None ''pay rent'' ''before Friday''
      = Inr (JStr ''Medium'')"
    by (rule ai_suggest_priority_fallback) simp
  have b: "ai_suggest_priority (\<lambda>rq. BodyNotJson) (Some ''hf_token'') ''pay rent'' []
      = Inr (JStr ''Medium'')"
    by (rule ai_suggest_priority_fallback) simp
  have c: "ai_suggest_priority (\<lambda>rq. BodyJson (JObj [(''error'', JStr ''Model is loading'')])) None
      ''pay rent'' [] = Inr (JStr ''Medium'')"
    by (rule ai_suggest_priority_fallback) simp
  from a b c show ?thesis by blast
qed

text \<open>
  Claim C2 says that the advisor returns one of the three labels for every reply of the
  remote service. The function returns the first entry of the reply's \<open>labels\<close> as it
  is: on a reply whose top-ranked label is \<open>Urgent\<close> the result is \<open>Urgent\<close>, which is none
  of the three labels its docstring promises.
\<close>

theorem ai_suggest_priority_unvalidated:
  "ai_suggest_priority rogue_reply None ''pay rent'' [] = Inr (JStr ''Urgent'')
   \<and> ''Urgent'' \<notin> set labels"
  by (simp add: ai_suggest_priority_def ai_try_def rogue_reply_def labels_def)

text \<open>On a reply that ranks the three candidates the result is the top-ranked one.\<close>

lemma ai_suggest_priority_top_label:
  "ai_suggest_priority (\<lambda>rq. BodyJson (JObj [(''labels'', JArr [JStr ''Low'', JStr ''Medium'', JStr ''High''])]))
     token ttl nts = Inr (JStr ''Low'')"
  by (simp add: ai_suggest_priority_def ai_try_def)

section \<open>The render loop\<close>

lemma py_index_absent: "x \<notin> set xs \<Longrightarrow> py_index xs x = Inl ValueError"
  by (induction xs) auto

lemma py_index_present: "x \<in> set xs \<Longrightarrow> \<exists>i. py_index xs x = Inr i"
  by (induction xs) auto

lemma rerun_set_done:
  "int64 dn \<Longrightarrow> int64 tid \<Longrightarrow> snd (then_rerun d (set_done (Some t) tid dn)) = Rerun"
  by (simp add: set_done_def)

lemma rerun_update_priority:
  "int64 tid \<Longrightarrow> snd (then_rerun d (update_priority (Some t) tid pri)) = Rerun"
  by (simp add: update_priority_def)

lemma rerun_delete_task:
  "int64 tid \<Longrightarrow> snd (then_rerun d (delete_task (Some t) tid)) = Rerun"
  by (simp add: delete_task_def)

text \<open>A mutation made from the loop can raise OverflowError at most, never ValueError.\<close>

lemma set_done_no_value_error:
  "snd (then_rerun d (set_done (Some t) tid dn)) \<noteq> Raised ValueError"
  by (simp add: set_done_def)

lemma update_priority_no_value_error:
  "snd (then_rerun d (update_priority (Some t) tid pri)) \<noteq> Raised ValueError"
  by (simp add: update_priority_def)

lemma delete_task_no_value_error:
  "snd (then_rerun d (delete_task (Some t) tid)) \<noteq> Raised ValueError"
  by (simp add: delete_task_def)

lemma render_rows_invalid_head:
  "row_priority r \<notin> Some ` set labels \<Longrightarrow> render_rows u d (r # rs) = (d, Raised ValueError)"
  using py_index_absent [of "row_priority r" "map Some labels"] by simp

lemma render_rows_valid:
  "\<forall>r\<in>set rws. row_priority r \<in> Some ` set labels \<and> int64 (row_id r) \<Longrightarrow>
     snd (render_rows u (Some t) rws) \<noteq> Raised e"
proof (induction rws)
  case Nil
  then show ?case by simp
next
  case (Cons r rs)
  then have "row_priority r \<in> set (map Some labels)" and fits: "int64 (row_id r)" by simp_all
  from py_index_present [OF this(1)] obtain i
    where i: "py_index (map Some labels) (row_priority r) = Inr i" ..
  from Cons have ih: "snd (render_rows u (Some t) rs) \<noteq> Raised e" by simp
  show ?case
    using i ih fits
    by (simp add: rerun_set_done rerun_update_priority rerun_delete_task int64_flag)
qed

lemma render_rows_no_value_error:
  "\<forall>r\<in>set rws. row_priority r \<in> Some ` set labels \<Longrightarrow>
     snd (render_rows u (Some t) rws) \<noteq> Raised ValueError"
proof (induction rws)
  case Nil
  then show ?case by simp
next
  case (Cons r rs)
  then have "row_priority r \<in> set (map Some labels)" by simp
  from py_index_present [OF this] obtain i
    where i: "py_index (map Some labels) (row_priority r) = Inr i" ..
  from Cons have ih: "snd (render_rows u (Some t) rs) \<noteq> Raised ValueError" by simp
  show ?case
    using i ih
    by (simp add: set_done_no_value_error update_priority_no_value_error
        delete_task_no_value_error)
qed

lemma render_rows_idle:
  assumes "\<forall>r\<in>set rws. \<not> del_button u (row_id r) \<and> done_chk u (row_id r) = (row_done r \<noteq> 0)
              \<and> (row_priority r \<in> Some ` set labels \<longrightarrow> Some (label (pri_state u (row_id r))) = row_priority r)"
    and "\<exists>r\<in>set rws. row_priority r \<notin> Some ` set labels"
  shows "render_rows u d rws = (d, Raised ValueError)"
  using assms
proof (induction rws)
  case Nil
  then show ?case by simp
next
  case (Cons r rs)
  show ?case
  proof (cases "row_priority r \<in> Some ` set labels")
    case False
    then show ?thesis by (rule render_rows_invalid_head)
  next
    case True
    then have "row_priority r \<in> set (map Some labels)" by simp
    from py_index_present [OF this] obtain i where i: "py_index (map Some labels) (row_priority r) = Inr i" ..
    from Cons.prems True have rest: "\<exists>r\<in>set rs. row_priority r \<notin> Some ` set labels" by auto
    from Cons.prems have idle: "\<not> del_button u (row_id r)" "done_chk u (row_id r) = (row_done r \<noteq> 0)"
      "Some (label (pri_state u (row_id r))) = row_priority r"
      using True by auto
    from Cons.prems have "\<forall>r\<in>set rs. \<not> del_button u (row_id r) \<and> done_chk u (row_id r) = (row_done r \<noteq> 0)
              \<and> (row_priority r \<in> Some ` set labels \<longrightarrow> Some (label (pri_state u (row_id r))) = row_priority r)"
      by simp
    from Cons.IH [OF this rest] have "render_rows u d rs = (d, Raised ValueError)" .
    with i idle show ?thesis by simp
  qed
qed


lemma render_show_done:
  "show_done u \<Longrightarrow> render u (Some t) = render_rows u (Some t) (map select_cols (listed True t))"
  by (simp add: render_def get_tasks_def)

lemma render_can_fail:
  assumes wf: "wf_table t" and bad: "\<exists>r\<in>set (rows t). t_priority r \<notin> Some ` set labels"
  shows "\<exists>u. snd (render u (Some t)) = Raised ValueError"
proof -
  define chk where "chk = (\<lambda>i. \<exists>r\<in>set (rows t). task_id r = i \<and> t_done r \<noteq> 0)"
  define pri where "pri = (\<lambda>i.
      if \<exists>r\<in>set (rows t). task_id r = i \<and> t_priority r = Some ''Low'' then Low
      else if \<exists>r\<in>set (rows t). task_id r = i \<and> t_priority r = Some ''Medium'' then Medium
      else High)"
  define u where "u = \<lparr>title_input = [], priority_select = Medium, notes_input = [],
      ai_button = False, add_button = False, show_done = True,
      done_chk = chk, del_button = (\<lambda>_. False), pri_state = pri\<rparr>"
  have uniq: "s = r" if "r \<in> set (rows t)" "s \<in> set (rows t)" "task_id s = task_id r" for r s
    using unique_by_id [OF wf that(2) that(1) that(3)] .
  have c: "chk (task_id r) = (t_done r \<noteq> 0)" if "r \<in> set (rows t)" for r
    using that uniq [OF that] by (auto simp: chk_def)
  have q: "(\<exists>s\<in>set (rows t). task_id s = task_id r \<and> t_priority s = x) = (t_priority r = x)"
    if "r \<in> set (rows t)" for r x
    using that uniq [OF that] by blast
  have p: "Some (label (pri (task_id r))) = t_priority r"
    if "r \<in> set (rows t)" "t_priority r \<in> Some ` set labels" for r
  proof -
    from that(2) consider "t_priority r = Some ''Low''" | "t_priority r = Some ''Medium''"
      | "t_priority r = Some ''High''" by (auto simp: labels_def)
    then show ?thesis
      by cases (simp_all add: pri_def q [OF that(1)])
  qed
  have idle: "\<forall>x\<in>set (map select_cols (listed True t)).
      \<not> del_button u (row_id x) \<and> done_chk u (row_id x) = (row_done x \<noteq> 0)
      \<and> (row_priority x \<in> Some ` set labels \<longrightarrow> Some (label (pri_state u (row_id x))) = row_priority x)"
    using c p by (auto simp: set_listed u_def)
  from bad have "\<exists>x\<in>set (map select_cols (listed True t)). row_priority x \<notin> Some ` set labels"
    by (auto simp: set_listed)
  from render_rows_idle [OF idle this]
  have "render_rows u (Some t) (map select_cols (listed True t)) = (Some t, Raised ValueError)" .
  moreover have "show_done u" by (simp add: u_def)
  ultimately have "snd (render u (Some t)) = Raised ValueError"
    by (simp add: render_show_done)
  then show ?thesis ..
qed

lemma render_never_fails:
  assumes "\<forall>r\<in>set (rows t). t_priority r \<in> Some ` set labels"
    and "\<forall>r\<in>set (rows t). int64 (task_id r)"
  shows "snd (render u (Some t)) \<noteq> Raised e"
proof -
  from assms have "\<forall>x\<in>set (map select_cols (listed (show_done u) t)).
      row_priority x \<in> Some ` set labels \<and> int64 (row_id x)"
    by (auto simp: set_listed)
  from render_rows_valid [OF this] show ?thesis by (simp add: render_def get_tasks_def)
qed

lemma render_no_value_error:
  assumes "\<forall>r\<in>set (rows t). t_priority r \<in> Some ` set labels"
  shows "snd (render u (Some t)) \<noteq> Raised ValueError"
proof -
  from assms have "\<forall>x\<in>set (map select_cols (listed (show_done u) t)).
      row_priority x \<in> Some ` set labels"
    by (auto simp: set_listed)
  from render_rows_no_value_error [OF this] show ?thesis by (simp add: render_def get_tasks_def)
qed

text \<open>
  Claim C10. Rendering is well defined only under the priority invariant. For each row it
  reaches, the render loop evaluates \<open>['Low','Medium','High'].index(t_priority)\<close>, which
  raises ValueError when the stored priority is not one of the three labels. On a table
  that respects its primary key, no input of the user makes rendering raise ValueError
  exactly when every stored priority is one of the three labels; and when the stored ids
  are 64-bit integers, as the ids of the column are, rendering raises nothing at all for
  every input of the user exactly then. Neither \<open>add_task\<close> nor \<open>update_priority\<close> checks
  the priority it stores: after either has stored another value, some rendering of the
  table raises ValueError.
\<close>

theorem render_needs_valid_priorities:
  assumes wf: "wf_table t"
  shows "((\<forall>u. snd (render u (Some t)) \<noteq> Raised ValueError)
            \<longleftrightarrow> (\<forall>r\<in>set (rows t). t_priority r \<in> Some ` set labels))
     \<and> ((\<forall>r\<in>set (rows t). int64 (task_id r)) \<longrightarrow>
          ((\<forall>u e. snd (render u (Some t)) \<noteq> Raised e)
            \<longleftrightarrow> (\<forall>r\<in>set (rows t). t_priority r \<in> Some ` set labels)))
     \<and> (row_priority x \<notin> Some ` set labels \<longrightarrow> render_rows v d (x # xs) = (d, Raised ValueError))
     \<and> (p \<notin> Some ` set labels \<longrightarrow>
          (\<exists>t' u. add_task (Some t) ttl nts p now = Inr (Some t')
             \<and> snd (render u (Some t')) = Raised ValueError))
     \<and> (p \<notin> Some ` set labels \<and> tid \<in> task_id ` set (rows t) \<and> int64 tid \<longrightarrow>
          (\<exists>t' u. update_priority (Some t) tid p = Inr (Some t')
             \<and> snd (render u (Some t')) = Raised ValueError))"
proof -
  have a1: "(\<forall>u. snd (render u (Some t)) \<noteq> Raised ValueError)
            \<longleftrightarrow> (\<forall>r\<in>set (rows t). t_priority r \<in> Some ` set labels)"
    using render_no_value_error [of t] render_can_fail [OF wf] by blast
  have a2: "(\<forall>u e. snd (render u (Some t)) \<noteq> Raised e)
            \<longleftrightarrow> (\<forall>r\<in>set (rows t). t_priority r \<in> Some ` set labels)"
    if "\<forall>r\<in>set (rows t). int64 (task_id r)"
    using render_never_fails [of t, OF _ that] render_can_fail [OF wf] by blast
  have b: "row_priority x \<notin> Some ` set labels \<longrightarrow> render_rows v d (x # xs) = (d, Raised ValueError)"
    using render_rows_invalid_head by blast
  have c: "\<exists>t' u. add_task (Some t) ttl nts p now = Inr (Some t')
             \<and> snd (render u (Some t')) = Raised ValueError" if "p \<notin> Some ` set labels"
  proof -
    from add_task_wf [OF wf, of ttl nts p now] obtain t' where
      t': "add_task (Some t) ttl nts p now = Inr (Some t')" "wf_table t'"
        "\<exists>r\<in>set (rows t'). t_priority r = p" by blast
    from t'(3) that have "\<exists>r\<in>set (rows t'). t_priority r \<notin> Some ` set labels" by auto
    from render_can_fail [OF t'(2) this] t'(1) show ?thesis by blast
  qed
  have d: "\<exists>t' u. update_priority (Some t) tid p = Inr (Some t')
             \<and> snd (render u (Some t')) = Raised ValueError"
    if "p \<notin> Some ` set labels" "tid \<in> task_id ` set (rows t)" "int64 tid"
  proof -
    from update_priority_wf [OF wf that(3), of p] that(2) obtain t' where
      t': "update_priority (Some t) tid p = Inr (Some t')" "wf_table t'"
        "\<exists>r\<in>set (rows t'). t_priority r = p" by blast
    from t'(3) that(1) have "\<exists>r\<in>set (rows t'). t_priority r \<notin> Some ` set labels" by auto
    from render_can_fail [OF t'(2) this] t'(1) show ?thesis by blast
  qed
  from a1 a2 b c d show ?thesis by blast
qed

theorem render_needs_valid_priorities_witness:
  "wf_table demo_table \<and> int64 1
   \<and> (\<forall>u. snd (render u (Some demo_table)) \<noteq> Raised ValueError)
   \<and> (\<forall>u e. snd (render u (Some demo_table)) \<noteq> Raised e)
   \<and> render_rows demo_ui None [(7, ''call bank'', None, Some ''Urgent'', 0)] = (None, Raised ValueError)
   \<and> (\<exists>t' u. add_task (Some demo_table) ''call bank'' None (Some ''Urgent'') ''2024-05-02T08:00:00''
                = Inr (Some t')
          \<and> snd (render u (Some t')) = Raised ValueError)
   \<and> (\<exists>t' u. update_priority (Some demo_table) 1 (Some ''Urgent'') = Inr (Some t')
          \<and> snd (render u (Some t')) = Raised ValueError)"
proof -
  note th = render_needs_valid_priorities [OF wf_demo_table,
      of "(7, ''call bank'', None, Some ''Urgent'', 0)" demo_ui None "[]" "Some ''Urgent''"
        "''call bank''" None "''2024-05-02T08:00:00''" 1]
  have valid: "\<forall>r\<in>set (rows demo_table). t_priority r \<in> Some ` set labels"
    by (simp add: demo_table_def labels_def)
  have ids: "\<forall>r\<in>set (rows demo_table). int64 (task_id r)"
    by (simp add: demo_table_def int64_def)
  have bad: "Some ''Urgent'' \<notin> Some ` set labels"
    by (simp add: labels_def)
  have badrow: "row_priority (7, ''call bank'', None, Some ''Urgent'', 0) \<notin> Some ` set labels"
    by (simp add: row_priority_def labels_def)
  have mem: "1 \<in> task_id ` set (rows demo_table)"
    by (simp add: demo_table_def)
  have f: "int64 1" by (simp add: int64_def)
  from th valid ids bad badrow mem f wf_demo_table show ?thesis by blast
qed

section \<open>The stored priorities across runs of the script\<close>

text \<open>A run in which the user touches nothing completes and changes nothing.\<close>

lemma idle_run: "app post token now demo_ui (Some demo_table) = (Some demo_table, Completed)"
  by (simp add: app_def init_db_def suggested_or_selected_def add_form_def demo_ui_def
      render_def get_tasks_def listed_def order_by_def precedes_def demo_table_def select_cols_def
      row_priority_def row_id_def row_done_def labels_def)

lemma label_in_labels: "label c \<in> set labels"
  by (cases c) (simp_all add: labels_def)

lemma ok_set_done:
  "priorities_ok (Some t) \<Longrightarrow> priorities_ok (fst (then_rerun (Some t) (set_done (Some t) tid dn)))"
  by (auto simp: priorities_ok_def set_done_def list_all_iff)

lemma ok_delete_task:
  "priorities_ok (Some t) \<Longrightarrow> priorities_ok (fst (then_rerun (Some t) (delete_task (Some t) tid)))"
  by (auto simp: priorities_ok_def delete_task_def list_all_iff)

lemma ok_update_priority:
  "priorities_ok (Some t) \<Longrightarrow> l \<in> set labels \<Longrightarrow>
     priorities_ok (fst (then_rerun (Some t) (update_priority (Some t) tid (Some l))))"
  by (auto simp: priorities_ok_def update_priority_def list_all_iff)

lemma ok_render_rows:
  "priorities_ok (Some t) \<Longrightarrow> priorities_ok (fst (render_rows u (Some t) rws))"
proof (induction rws)
  case Nil
  then show ?case by simp
next
  case (Cons r rs)
  then show ?case
    using ok_set_done [of t] ok_delete_task [of t] ok_update_priority [of t, OF _ label_in_labels]
    by (simp split: sum.splits)
qed

lemma ok_render: "priorities_ok (Some t) \<Longrightarrow> priorities_ok (fst (render u (Some t)))"
  by (simp add: render_def get_tasks_def ok_render_rows)

lemma ok_add_task:
  "priorities_ok (Some t) \<Longrightarrow> l \<in> set labels \<Longrightarrow>
     \<exists>t'. add_task (Some t) ttl nts (Some l) now = Inr (Some t') \<and> priorities_ok (Some t')"
  by (simp add: priorities_ok_def add_task_def)

text \<open>
  A run keeps the stored priorities among the three labels whenever the advisor's
  suggestion, if it is the value that the form inserts, is one of them.
\<close>

lemma app_keeps_priorities:
  assumes ok: "priorities_ok d"
    and adv: "ai_button u \<and> add_button u \<and> title_input u \<noteq> [] \<longrightarrow>
       (\<exists>l\<in>set labels. ai_suggest_priority post token (title_input u) (notes_input u) = Inr (JStr l))"
  shows "priorities_ok (fst (app post token now u d))"
proof -
  obtain t1 where d1: "init_db d = Inr (Some t1)" "priorities_ok (Some t1)"
    using ok by (cases d) (simp_all add: init_db_def priorities_ok_def)
  have "\<exists>pri. suggested_or_selected post token u = Inr pri"
    using ai_never_raises [of post token "title_input u" "notes_input u"]
    by (simp add: suggested_or_selected_def)
  then obtain pri where pri: "suggested_or_selected post token u = Inr pri" ..
  have "\<exists>t2. add_form now u pri (Some t1) = Inr (Some t2) \<and> priorities_ok (Some t2)"
  proof (cases "add_button u \<and> title_input u \<noteq> []")
    case False
    with d1(2) show ?thesis by (auto simp: add_form_def)
  next
    case True
    have "\<exists>l\<in>set labels. pri = JStr l"
    proof (cases "ai_button u")
      case True
      with adv \<open>add_button u \<and> title_input u \<noteq> []\<close> pri show ?thesis
        by (auto simp: suggested_or_selected_def)
    next
      case False
      with pri label_in_labels show ?thesis by (auto simp: suggested_or_selected_def)
    qed
    then obtain l where l: "l \<in> set labels" "pri = JStr l" by blast
    from ok_add_task [OF d1(2) l(1)] True l(2) show ?thesis by (simp add: add_form_def)
  qed
  then obtain t2 where t2: "add_form now u pri (Some t1) = Inr (Some t2)" "priorities_ok (Some t2)"
    by blast
  from d1(1) pri t2(1) have "app post token now u d = render u (Some t2)"
    by (simp add: app_def)
  with ok_render [OF t2(2)] show ?thesis by simp
qed


end
